theory Spec2Isabelle
  imports Main "HOL-Library.Multiset" "HOL-Library.Sublist"
begin

section \<open>The licenses command of yarn (src/cli/commands/licenses.js)\<close>

text \<open>
  The command reads the flat list of resolved manifests, sorts it by name, drops the
  ignored manifests (\<open>getManifests\<close>), and then either groups the manifests by license and
  prints a table or a tree (\<open>list\<close>), or prints the disclaimer entries
  (\<open>generateDisclaimer\<close>).

  Resolution, hydration and the lockfile are outside this file: the array returned by
  \<open>install.resolver.getManifests()\<close> is the input \<open>M\<close> of the model. Strings are
  \<open>char list\<close>; a property that may be \<open>undefined\<close> is an \<open>option\<close>.
\<close>

subsection \<open>JavaScript values\<close>

text \<open>Truthiness of a string-valued property: \<open>undefined\<close> and the empty string are falsy.\<close>

definition truthy :: "string option \<Rightarrow> bool" where
  "truthy v = (case v of None \<Rightarrow> False | Some s \<Rightarrow> s \<noteq> [])"

text \<open>\<open>a || b\<close> on string-valued properties.\<close>

definition or_else :: "string option \<Rightarrow> string option \<Rightarrow> string option" where
  "or_else a b = (if truthy a then a else b)"

text \<open>A template literal \<open>`${v}`\<close> prints \<open>undefined\<close> for a missing property.\<close>

definition toString :: "string option \<Rightarrow> string" where
  "toString v = (case v of None \<Rightarrow> ''undefined'' | Some s \<Rightarrow> s)"

text \<open>
  \<open>String.prototype.trim\<close>: the white space and line terminators of ECMAScript that fit an
  8-bit character (TAB, LF, VT, FF, CR, SP, NBSP) are removed at both ends.
\<close>

definition isWhiteSpace :: "char \<Rightarrow> bool" where
  "isWhiteSpace c = (of_char c \<in> {9, 10, 11, 12, 13, 32, 160 :: nat})"

definition trim :: "string \<Rightarrow> string" where
  "trim s = rev (dropWhile isWhiteSpace (rev (dropWhile isWhiteSpace s)))"

text \<open>
  \<open>Array.prototype.sort(comparefn)\<close>: a stable sort; an element goes before the first
  element it does not compare greater than. For a consistent comparator every stable sort
  returns this list.
\<close>

fun insert_by :: "('a \<Rightarrow> 'a \<Rightarrow> int) \<Rightarrow> 'a \<Rightarrow> 'a list \<Rightarrow> 'a list" where
  "insert_by cmp x [] = [x]"
| "insert_by cmp x (y # ys) = (if cmp x y \<le> 0 then x # y # ys else y # insert_by cmp x ys)"

definition sort_by :: "('a \<Rightarrow> 'a \<Rightarrow> int) \<Rightarrow> 'a list \<Rightarrow> 'a list" where
  "sort_by cmp xs = foldr (insert_by cmp) xs []"

text \<open>
  A \<open>Map\<close>: an association list in insertion order with distinct keys. \<open>set\<close> on a key the
  map has replaces the value where the key stands; on a new key it appends.
\<close>

type_synonym ('k, 'v) js_map = "('k \<times> 'v) list"

definition map_has :: "('k, 'v) js_map \<Rightarrow> 'k \<Rightarrow> bool" where
  "map_has m k = (map_of m k \<noteq> None)"

definition map_get :: "('k, 'v) js_map \<Rightarrow> 'k \<Rightarrow> 'v option" where
  "map_get m k = map_of m k"

fun map_set :: "('k, 'v) js_map \<Rightarrow> 'k \<Rightarrow> 'v \<Rightarrow> ('k, 'v) js_map" where
  "map_set [] k v = [(k, v)]"
| "map_set (p # ps) k v = (if fst p = k then (k, v) # ps else p # map_set ps k v)"

subsection \<open>Manifests\<close>

record Repository =
  repository_url :: "string option"

record Author =
  author_name :: "string option"
  author_url :: "string option"

record PackageReference =
  ignore :: bool

record Manifest =
  name :: "string option"
  version :: string
  license :: "string option"
  repository :: "Repository option"
  homepage :: "string option"
  author :: "Author option"
  licenseText :: "string option"
  manifestIsPrivate :: "bool option"
  reference :: "PackageReference option"

subsection \<open>getManifests\<close>

text \<open>The comparator of the sort; \<open>localeCompare\<close> is the collation of the host.\<close>

definition compare_names :: "(string \<Rightarrow> string \<Rightarrow> int) \<Rightarrow> Manifest \<Rightarrow> Manifest \<Rightarrow> int" where
  "compare_names localeCompare a b =
     (if \<not> truthy (name a) \<and> \<not> truthy (name b) then 0
      else if \<not> truthy (name a) then 1
      else if \<not> truthy (name b) then - 1
      else localeCompare (the (name a)) (the (name b)))"

text \<open>The filter: \<open>!!ref && !ref.ignore\<close>.\<close>

definition not_ignored :: "Manifest \<Rightarrow> bool" where
  "not_ignored manifest = (case reference manifest of None \<Rightarrow> False | Some ref \<Rightarrow> \<not> ignore ref)"

definition getManifests :: "(string \<Rightarrow> string \<Rightarrow> int) \<Rightarrow> Manifest list \<Rightarrow> Manifest list" where
  "getManifests localeCompare M = filter not_ignored (sort_by (compare_names localeCompare) M)"

subsection \<open>list: the grouping loop\<close>

text \<open>\<open>a || 'literal'\<close>: the string itself when it is truthy, the literal otherwise.\<close>

definition or_default :: "string option \<Rightarrow> string \<Rightarrow> string" where
  "or_default a d = (case a of None \<Rightarrow> d | Some s \<Rightarrow> if s = [] then d else s)"

record PackageLicenseInfo =
  pkg_name :: "string option"
  pkg_version :: string
  url :: "string option"
  vendorUrl :: "string option"
  vendorName :: "string option"

datatype error = InvariantViolation string

type_synonym license_map = "(string, (string, PackageLicenseInfo) js_map) js_map"

text \<open>\<open>license || 'UNKNOWN'\<close>\<close>

definition licenseKey_of :: "Manifest \<Rightarrow> string" where
  "licenseKey_of manifest = or_default (license manifest) ''UNKNOWN''"

text \<open>The key \<open>`${name}@${version}`\<close> of a package inside its bucket.\<close>

definition package_key :: "Manifest \<Rightarrow> string" where
  "package_key manifest = toString (name manifest) @ ''@'' @ version manifest"

text \<open>
  The object stored for a manifest: \<open>url = repository ? repository.url : homepage\<close>,
  \<open>vendorUrl = homepage || (author && author.url)\<close>, \<open>vendorName = author && author.name\<close>.
\<close>

definition license_info :: "Manifest \<Rightarrow> PackageLicenseInfo" where
  "license_info manifest =
     \<lparr>pkg_name = name manifest,
      pkg_version = version manifest,
      url = (case repository manifest of Some r \<Rightarrow> repository_url r | None \<Rightarrow> homepage manifest),
      vendorUrl = or_else (homepage manifest)
                    (case author manifest of None \<Rightarrow> None | Some a \<Rightarrow> author_url a),
      vendorName = (case author manifest of None \<Rightarrow> None | Some a \<Rightarrow> author_name a)\<rparr>"

text \<open>
  One turn of the loop of \<open>list\<close>. The inner map is an object shared with the outer map, so
  the \<open>set\<close> on it is a \<open>set\<close> in place of the outer entry. \<open>invariant(byLicense, ...)\<close> throws
  when the lookup finds nothing.
\<close>

definition list_step :: "Manifest \<Rightarrow> license_map \<Rightarrow> error + license_map" where
  "list_step manifest manifestsByLicense =
     (let licenseKey = licenseKey_of manifest;
          created = (if \<not> map_has manifestsByLicense licenseKey
                     then map_set manifestsByLicense licenseKey []
                     else manifestsByLicense)
      in case map_get created licenseKey of
           None \<Rightarrow> Inl (InvariantViolation ''expected value'')
         | Some byLicense \<Rightarrow>
             Inr (map_set created licenseKey
                    (map_set byLicense (package_key manifest) (license_info manifest))))"

fun list_loop :: "Manifest list \<Rightarrow> license_map \<Rightarrow> error + license_map" where
  "list_loop [] manifestsByLicense = Inr manifestsByLicense"
| "list_loop (manifest # manifests) manifestsByLicense =
     (case list_step manifest manifestsByLicense of
        Inl e \<Rightarrow> Inl e
      | Inr updated \<Rightarrow> list_loop manifests updated)"

text \<open>The grouping of \<open>list\<close> (its lines 53 to 74), started on \<open>new Map()\<close>.\<close>

definition group_by_license :: "Manifest list \<Rightarrow> error + license_map" where
  "group_by_license manifests = list_loop manifests []"

subsection \<open>list: the two reports\<close>

text \<open>A tree node of the reporter: \<open>{name}\<close> or \<open>{name, children}\<close>.\<close>

datatype tree = Leaf string | Node string "tree list"

text \<open>What \<open>list\<close> hands to the reporter: \<open>table(head, body)\<close> or \<open>tree(key, trees, {force})\<close>.\<close>

datatype report =
  Table "string list" "string option list list"
| TreeReport string "tree list" bool

definition table_row :: "string \<Rightarrow> PackageLicenseInfo \<Rightarrow> string option list" where
  "table_row licenseKey info =
     [pkg_name info, Some (pkg_version info), Some licenseKey,
      Some (or_default (url info) ''Unknown''),
      Some (or_default (vendorUrl info) ''Unknown''),
      Some (or_default (vendorName info) ''Unknown'')]"

definition table_body :: "license_map \<Rightarrow> string option list list" where
  "table_body manifestsByLicense =
     concat (map (\<lambda>(licenseKey, byLicense). map (\<lambda>(key, info). table_row licenseKey info) byLicense)
               manifestsByLicense)"

text \<open>\<open>bold\<close> is \<open>reporter.format.bold\<close>.\<close>

definition package_children :: "(string \<Rightarrow> string) \<Rightarrow> PackageLicenseInfo \<Rightarrow> tree list" where
  "package_children bold info =
     (if truthy (url info) then [Leaf (bold ''URL:'' @ '' '' @ toString (url info))] else []) @
     (if truthy (vendorUrl info)
      then [Leaf (bold ''VendorUrl:'' @ '' '' @ toString (vendorUrl info))] else []) @
     (if truthy (vendorName info)
      then [Leaf (bold ''VendorName:'' @ '' '' @ toString (vendorName info))] else [])"

definition package_tree :: "(string \<Rightarrow> string) \<Rightarrow> PackageLicenseInfo \<Rightarrow> tree" where
  "package_tree bold info =
     Node (toString (pkg_name info) @ ''@'' @ pkg_version info) (package_children bold info)"

definition license_trees :: "(string \<Rightarrow> string) \<Rightarrow> license_map \<Rightarrow> tree list" where
  "license_trees bold manifestsByLicense =
     map (\<lambda>(licenseKey, byLicense). Node licenseKey (map (\<lambda>(key, info). package_tree bold info) byLicense))
       manifestsByLicense"

definition list_command ::
  "(string \<Rightarrow> string \<Rightarrow> int) \<Rightarrow> (string \<Rightarrow> string) \<Rightarrow> bool \<Rightarrow> Manifest list \<Rightarrow> error + report" where
  "list_command localeCompare bold json M =
     (case group_by_license (getManifests localeCompare M) of
        Inl e \<Rightarrow> Inl e
      | Inr manifestsByLicense \<Rightarrow>
          if json
          then Inr (Table [''Name'', ''Version'', ''License'', ''URL'', ''VendorUrl'', ''VendorName'']
                      (table_body manifestsByLicense))
          else Inr (TreeReport ''licenses'' (license_trees bold manifestsByLicense) True))"

subsection \<open>generateDisclaimer\<close>

record DisclaimerEntry =
  entry_name :: "string option"
  entry_version :: string
  entry_licenseText :: "string option"
  entry_license :: "string option"
  entry_homepage :: "string option"

definition disclaimer_entry :: "Manifest \<Rightarrow> DisclaimerEntry" where
  "disclaimer_entry manifest =
     \<lparr>entry_name = name manifest,
      entry_version = version manifest,
      entry_licenseText =
        (if truthy (licenseText manifest) then Some (trim (toString (licenseText manifest))) else None),
      entry_license = license manifest,
      entry_homepage = homepage manifest\<rparr>"

text \<open>\<open>!manifestIsPrivate\<close>\<close>

definition not_private :: "Manifest \<Rightarrow> bool" where
  "not_private manifest = (manifestIsPrivate manifest \<noteq> Some True)"

fun disclaimer_loop :: "Manifest list \<Rightarrow> DisclaimerEntry list \<Rightarrow> DisclaimerEntry list" where
  "disclaimer_loop [] data = data"
| "disclaimer_loop (manifest # manifests) data =
     (if not_private manifest
      then disclaimer_loop manifests (data @ [disclaimer_entry manifest])
      else disclaimer_loop manifests data)"

text \<open>The array that \<open>generateDisclaimer\<close> hands to \<open>JSON.stringify\<close>.\<close>

definition generateDisclaimer :: "(string \<Rightarrow> string \<Rightarrow> int) \<Rightarrow> Manifest list \<Rightarrow> DisclaimerEntry list" where
  "generateDisclaimer localeCompare M = disclaimer_loop (getManifests localeCompare M) []"

section \<open>Notions used to state the properties\<close>

text \<open>
  What \<open>sort\<close> asks of its comparator: any two elements compare one way or the other, and
  the order is transitive. A collation is such a comparator on strings.
\<close>

definition consistent_comparator :: "('a \<Rightarrow> 'a \<Rightarrow> int) \<Rightarrow> bool" where
  "consistent_comparator cmp \<longleftrightarrow>
     (\<forall>a b. cmp a b \<le> 0 \<or> cmp b a \<le> 0) \<and>
     (\<forall>a b c. cmp a b \<le> 0 \<longrightarrow> cmp b c \<le> 0 \<longrightarrow> cmp a c \<le> 0)"

text \<open>A collation to run the command with: strings compared character by character.\<close>

fun ordinalCompare :: "string \<Rightarrow> string \<Rightarrow> int" where
  "ordinalCompare [] [] = 0"
| "ordinalCompare [] (y # ys) = - 1"
| "ordinalCompare (x # xs) [] = 1"
| "ordinalCompare (x # xs) (y # ys) =
     (if (of_char x :: nat) < of_char y then - 1
      else if (of_char y :: nat) < of_char x then 1
      else ordinalCompare xs ys)"

text \<open>
  Sorted by name: a manifest without a truthy name stands before no manifest that has one,
  and two manifests with truthy names stand in collation order.
\<close>

definition name_before :: "(string \<Rightarrow> string \<Rightarrow> int) \<Rightarrow> Manifest \<Rightarrow> Manifest \<Rightarrow> bool" where
  "name_before localeCompare a b \<longleftrightarrow>
     (truthy (name a) \<or> \<not> truthy (name b)) \<and>
     (truthy (name a) \<and> truthy (name b) \<longrightarrow> localeCompare (the (name a)) (the (name b)) \<le> 0)"

text \<open>The order as C3 words it: every name that is not \<open>undefined\<close> counts as a name.\<close>

definition name_before_as_stated :: "(string \<Rightarrow> string \<Rightarrow> int) \<Rightarrow> Manifest \<Rightarrow> Manifest \<Rightarrow> bool" where
  "name_before_as_stated localeCompare a b \<longleftrightarrow>
     (name a \<noteq> None \<or> name b = None) \<and>
     (name a \<noteq> None \<and> name b \<noteq> None \<longrightarrow> localeCompare (the (name a)) (the (name b)) \<le> 0)"

text \<open>A manifest with a name and a version only, whose reference is not ignored.\<close>

definition package :: "string \<Rightarrow> string \<Rightarrow> Manifest" where
  "package n v =
     \<lparr>name = Some n, version = v, license = None, repository = None, homepage = None,
      author = None, licenseText = None, manifestIsPrivate = None,
      reference = Some \<lparr>ignore = False\<rparr>\<rparr>"

text \<open>The elements of a list in the order in which they first occur.\<close>

fun first_seen :: "'a list \<Rightarrow> 'a list" where
  "first_seen [] = []"
| "first_seen (x # xs) = x # removeAll x (first_seen xs)"

text \<open>The bucket of a license key; a key the map does not have yet stands for an empty bucket.\<close>

definition bucket_of :: "license_map \<Rightarrow> string \<Rightarrow> (string, PackageLicenseInfo) js_map" where
  "bucket_of B k = (case map_get B k of None \<Rightarrow> [] | Some byLicense \<Rightarrow> byLicense)"

text \<open>What a turn of the loop leaves when it does not throw.\<close>

definition put :: "license_map \<Rightarrow> Manifest \<Rightarrow> license_map" where
  "put B m =
     map_set B (licenseKey_of m)
       (map_set (bucket_of B (licenseKey_of m)) (package_key m) (license_info m))"

text \<open>The bucket built from the manifests of one license key, in their order.\<close>

definition bucket_entries :: "Manifest list \<Rightarrow> (string, PackageLicenseInfo) js_map" where
  "bucket_entries ms = foldl (\<lambda>b m. map_set b (package_key m) (license_info m)) [] ms"

text \<open>The url as C2 words it: the url of the repository when there is one, else the homepage.\<close>

definition url_as_stated :: "Manifest \<Rightarrow> string option" where
  "url_as_stated m =
     (case (case repository m of None \<Rightarrow> None | Some r \<Rightarrow> repository_url r) of
        Some u \<Rightarrow> Some u
      | None \<Rightarrow> homepage m)"

section \<open>The sort\<close>

lemma mset_insert_by: "mset (insert_by cmp x ys) = add_mset x (mset ys)"
  by (induction ys) auto

lemma mset_sort_by: "mset (sort_by cmp xs) = mset xs"
  by (induction xs) (auto simp: sort_by_def mset_insert_by)

lemma set_insert_by: "set (insert_by cmp x ys) = insert x (set ys)"
  by (induction ys) auto

lemma sorted_insert_by:
  assumes "consistent_comparator cmp" and "sorted_wrt (\<lambda>a b. cmp a b \<le> 0) ys"
  shows "sorted_wrt (\<lambda>a b. cmp a b \<le> 0) (insert_by cmp x ys)"
  using assms(2)
proof (induction ys)
  case Nil
  then show ?case by simp
next
  case (Cons y ys)
  have tot: "\<And>a b. cmp a b \<le> 0 \<or> cmp b a \<le> 0"
    and tr: "\<And>a b c. cmp a b \<le> 0 \<Longrightarrow> cmp b c \<le> 0 \<Longrightarrow> cmp a c \<le> 0"
    using assms(1) unfolding consistent_comparator_def by blast+
  show ?case
  proof (cases "cmp x y \<le> 0")
    case True
    with Cons.prems tr show ?thesis by auto
  next
    case False
    with tot have "cmp y x \<le> 0" by blast
    with False Cons show ?thesis by (auto simp: set_insert_by)
  qed
qed

lemma sorted_sort_by:
  "consistent_comparator cmp \<Longrightarrow> sorted_wrt (\<lambda>a b. cmp a b \<le> 0) (sort_by cmp xs)"
  by (induction xs) (auto simp: sort_by_def intro: sorted_insert_by)

lemma insert_by_sorted: "sorted_wrt (\<lambda>a b. cmp a b \<le> 0) (x # ys) \<Longrightarrow> insert_by cmp x ys = x # ys"
  by (cases ys) auto

lemma sort_by_sorted: "sorted_wrt (\<lambda>a b. cmp a b \<le> 0) xs \<Longrightarrow> sort_by cmp xs = xs"
proof (induction xs)
  case Nil
  then show ?case by (simp add: sort_by_def)
next
  case (Cons x xs)
  then have "sort_by cmp xs = xs" by simp
  then have "sort_by cmp (x # xs) = insert_by cmp x xs" by (simp add: sort_by_def)
  with Cons.prems show ?case by (simp add: insert_by_sorted)
qed

section \<open>getManifests\<close>

lemma consistent_compare_names:
  assumes "consistent_comparator lc"
  shows "consistent_comparator (compare_names lc)"
proof -
  have tot: "\<And>a b. lc a b \<le> 0 \<or> lc b a \<le> 0"
    and tr: "\<And>a b c. lc a b \<le> 0 \<Longrightarrow> lc b c \<le> 0 \<Longrightarrow> lc a c \<le> 0"
    using assms unfolding consistent_comparator_def by blast+
  show ?thesis
    unfolding consistent_comparator_def compare_names_def
    using tot tr by (auto split: if_splits) 
qed

lemma compare_names_before: "compare_names lc a b \<le> 0 \<Longrightarrow> name_before lc a b"
  by (auto simp: compare_names_def name_before_def split: if_splits)

lemma filter_unnamed_insert_by:
  "filter (\<lambda>m. \<not> truthy (name m)) (insert_by (compare_names lc) x ys) =
   filter (\<lambda>m. \<not> truthy (name m)) (x # ys)"
  by (induction ys) (auto simp: compare_names_def)

lemma filter_unnamed_sort_by:
  "filter (\<lambda>m. \<not> truthy (name m)) (sort_by (compare_names lc) xs) =
   filter (\<lambda>m. \<not> truthy (name m)) xs"
  by (induction xs) (auto simp: sort_by_def filter_unnamed_insert_by)

lemma ordinalCompare_antisym: "ordinalCompare a b \<le> 0 \<or> ordinalCompare b a \<le> 0"
  by (induction a b rule: ordinalCompare.induct) auto

lemma ordinalCompare_trans:
  "ordinalCompare a b \<le> 0 \<Longrightarrow> ordinalCompare b c \<le> 0 \<Longrightarrow> ordinalCompare a c \<le> 0"
proof (induction a b arbitrary: c rule: ordinalCompare.induct)
  case 1
  then show ?case by simp
next
  case (2 y ys)
  then show ?case by (cases c) auto
next
  case (3 x xs)
  then show ?case by simp
next
  case (4 x xs y ys)
  show ?case
  proof (cases c)
    case Nil
    with "4.prems"(2) show ?thesis by simp
  next
    case (Cons z zs)
    from "4.prems"(1) have xy: "(of_char x :: nat) \<le> of_char y"
      by (simp split: if_splits)
    from "4.prems"(2) Cons have yz: "(of_char y :: nat) \<le> of_char z"
      by (simp split: if_splits)
    show ?thesis
    proof (cases "(of_char x :: nat) < of_char z")
      case True
      with Cons show ?thesis by simp
    next
      case False
      with xy yz have e: "(of_char x :: nat) = of_char y" "(of_char y :: nat) = of_char z"
        by linarith+
      from e "4.prems"(1) have 1: "ordinalCompare xs ys \<le> 0" by simp
      from e "4.prems"(2) Cons have 2: "ordinalCompare ys zs \<le> 0" by simp
      from e have "\<not> (of_char x :: nat) < of_char y" "\<not> (of_char y :: nat) < of_char x" by simp_all
      from "4.IH"[OF this 1 2] have "ordinalCompare xs zs \<le> 0" .
      with Cons e show ?thesis by simp
    qed
  qed
qed

lemma consistent_ordinalCompare: "consistent_comparator ordinalCompare"
  unfolding consistent_comparator_def
  using ordinalCompare_antisym ordinalCompare_trans by blast

lemma sorted_wrt_mono_rel': "(\<And>a b. P a b \<Longrightarrow> Q a b) \<Longrightarrow> sorted_wrt P xs \<Longrightarrow> sorted_wrt Q xs"
  by (induction xs) auto

text \<open>
  C3, as the code has it: for a collation that is a consistent comparator, \<open>getManifests\<close>
  returns a sublist of a permutation of its input; the result is sorted by name, where a
  manifest whose name is absent or the empty string stands after every manifest with a
  non-empty name and manifests with non-empty names stand in collation order; the manifests
  without a truthy name keep their relative order; and the result holds exactly the
  manifests of the input whose reference is present and not flagged \<open>ignore\<close>.
\<close>

theorem getManifests_sorted_filtered:
  assumes "consistent_comparator localeCompare"
  shows "(\<exists>P. mset P = mset M \<and> subseq (getManifests localeCompare M) P) \<and>
         sorted_wrt (name_before localeCompare) (getManifests localeCompare M) \<and>
         filter (\<lambda>m. \<not> truthy (name m)) (getManifests localeCompare M) =
           filter (\<lambda>m. \<not> truthy (name m) \<and> (\<exists>r. reference m = Some r \<and> \<not> ignore r)) M \<and>
         mset (getManifests localeCompare M) =
           filter_mset (\<lambda>m. \<exists>r. reference m = Some r \<and> \<not> ignore r) (mset M)"
proof -
  let ?S = "sort_by (compare_names localeCompare) M"
  have ni: "not_ignored = (\<lambda>m. \<exists>r. reference m = Some r \<and> \<not> ignore r)"
    by (auto simp: not_ignored_def fun_eq_iff split: option.splits)
  have perm: "mset ?S = mset M" by (rule mset_sort_by)
  have sub: "subseq (getManifests localeCompare M) ?S"
    by (simp add: getManifests_def)
  have "sorted_wrt (\<lambda>a b. compare_names localeCompare a b \<le> 0) ?S"
    by (rule sorted_sort_by[OF consistent_compare_names[OF assms]])
  then have "sorted_wrt (name_before localeCompare) ?S"
    by (rule sorted_wrt_mono_rel'[rotated]) (rule compare_names_before)
  then have srt: "sorted_wrt (name_before localeCompare) (getManifests localeCompare M)"
    by (simp add: getManifests_def sorted_wrt_filter)
  have "filter (\<lambda>m. \<not> truthy (name m)) (getManifests localeCompare M) =
        filter not_ignored (filter (\<lambda>m. \<not> truthy (name m)) ?S)"
    by (simp add: getManifests_def conj_commute)
  also have "\<dots> = filter not_ignored (filter (\<lambda>m. \<not> truthy (name m)) M)"
    by (simp only: filter_unnamed_sort_by)
  finally have stab: "filter (\<lambda>m. \<not> truthy (name m)) (getManifests localeCompare M) =
           filter (\<lambda>m. \<not> truthy (name m) \<and> (\<exists>r. reference m = Some r \<and> \<not> ignore r)) M"
    by (simp add: ni conj_commute)
  have ms: "mset (getManifests localeCompare M) =
           filter_mset (\<lambda>m. \<exists>r. reference m = Some r \<and> \<not> ignore r) (mset M)"
    by (simp add: getManifests_def perm ni)
  from perm sub srt stab ms show ?thesis by blast
qed

text \<open>The theorem at five manifests: one unnamed, one with an empty name, one without a reference.\<close>

theorem getManifests_sorted_filtered_witness:
  "consistent_comparator ordinalCompare \<and>
   getManifests ordinalCompare
     [(package ''a'' ''3.0'')\<lparr>name := None\<rparr>, package ''b'' ''1.0'',
      (package ''c'' ''1.0'')\<lparr>reference := None\<rparr>, (package ''d'' ''2.0'')\<lparr>name := Some []\<rparr>,
      package ''a'' ''2.0''] =
     [package ''a'' ''2.0'', package ''b'' ''1.0'', (package ''a'' ''3.0'')\<lparr>name := None\<rparr>,
      (package ''d'' ''2.0'')\<lparr>name := Some []\<rparr>] \<and>
   sorted_wrt (name_before ordinalCompare)
     (getManifests ordinalCompare
     [(package ''a'' ''3.0'')\<lparr>name := None\<rparr>, package ''b'' ''1.0'',
      (package ''c'' ''1.0'')\<lparr>reference := None\<rparr>, (package ''d'' ''2.0'')\<lparr>name := Some []\<rparr>,
      package ''a'' ''2.0''])"
  using getManifests_sorted_filtered [OF consistent_ordinalCompare,
      of "[(package ''a'' ''3.0'')\<lparr>name := None\<rparr>, package ''b'' ''1.0'',
      (package ''c'' ''1.0'')\<lparr>reference := None\<rparr>, (package ''d'' ''2.0'')\<lparr>name := Some []\<rparr>,
      package ''a'' ''2.0'']"]
    consistent_ordinalCompare
  by (simp add: getManifests_def sort_by_def compare_names_def truthy_def package_def not_ignored_def)

text \<open>
  C3 as it is stated fails for a name that is present and empty: the comparator takes it
  for a missing name, so it is sorted after \<open>a\<close>, which the collation puts after it.
\<close>

theorem getManifests_empty_name_counterexample:
  "getManifests ordinalCompare [(package ''x'' ''1.0'')\<lparr>name := Some []\<rparr>, package ''a'' ''1.0''] =
     [package ''a'' ''1.0'', (package ''x'' ''1.0'')\<lparr>name := Some []\<rparr>] \<and>
   ordinalCompare [] ''a'' < 0 \<and>
   \<not> sorted_wrt (name_before_as_stated ordinalCompare)
       (getManifests ordinalCompare [(package ''x'' ''1.0'')\<lparr>name := Some []\<rparr>, package ''a'' ''1.0''])"
  by (simp add: getManifests_def sort_by_def compare_names_def truthy_def package_def not_ignored_def
      name_before_as_stated_def)

section \<open>Maps in insertion order\<close>

lemma map_of_map_set: "map_of (map_set m k v) = (map_of m)(k \<mapsto> v)"
  by (induction m) (auto simp: fun_eq_iff)

lemma keys_map_set:
  "map fst (map_set m k v) = (if k \<in> set (map fst m) then map fst m else map fst m @ [k])"
  by (induction m) auto

lemma map_set_twice: "map_set (map_set m k v) k w = map_set m k w"
  by (induction m) auto

lemma set_first_seen: "set (first_seen xs) = set xs"
  by (induction xs) auto

lemma distinct_first_seen: "distinct (first_seen xs)"
  by (induction xs) (auto simp: distinct_removeAll)

lemma first_seen_snoc:
  "first_seen (xs @ [x]) = (if x \<in> set xs then first_seen xs else first_seen xs @ [x])"
  by (induction xs) auto

section \<open>The grouping loop\<close>

lemma list_step_put: "list_step m B = Inr (put B m)"
proof (cases "map_of B (licenseKey_of m)")
  case None
  then show ?thesis
    by (simp add: list_step_def put_def bucket_of_def map_has_def map_get_def Let_def
        map_of_map_set map_set_twice)
next
  case (Some b)
  then show ?thesis
    by (simp add: list_step_def put_def bucket_of_def map_has_def map_get_def Let_def)
qed

lemma list_loop_foldl: "list_loop ms B = Inr (foldl put B ms)"
  by (induction ms arbitrary: B) (simp_all add: list_step_put)

lemma group_foldl: "group_by_license ms = Inr (foldl put [] ms)"
  by (simp add: group_by_license_def list_loop_foldl)

lemma keys_put:
  "map fst (put B m) =
     (if licenseKey_of m \<in> set (map fst B) then map fst B else map fst B @ [licenseKey_of m])"
  by (simp add: put_def keys_map_set)

lemma map_of_put:
  "map_of (put B m) =
     (map_of B)(licenseKey_of m \<mapsto>
        map_set (bucket_of B (licenseKey_of m)) (package_key m) (license_info m))"
  by (simp add: put_def map_of_map_set)

lemma keys_grouped: "map fst (foldl put [] ms) = first_seen (map licenseKey_of ms)"
proof (induction ms rule: rev_induct)
  case Nil
  then show ?case by simp
next
  case (snoc m ms)
  have "set (map fst (foldl put [] ms)) = licenseKey_of ` set ms"
    by (simp only: snoc set_first_seen) simp
  then show ?case
    by (simp add: keys_put first_seen_snoc snoc)
qed

lemma bucket_entries_snoc:
  "bucket_entries (ms @ [m]) = map_set (bucket_entries ms) (package_key m) (license_info m)"
  by (simp add: bucket_entries_def)

lemma map_of_grouped:
  "map_of (foldl put [] ms) k =
     (if k \<in> licenseKey_of ` set ms
      then Some (bucket_entries (filter (\<lambda>m. licenseKey_of m = k) ms)) else None)"
proof (induction ms arbitrary: k rule: rev_induct)
  case Nil
  then show ?case by simp
next
  case (snoc m ms)
  let ?B = "foldl put [] ms"
  have b: "bucket_of ?B (licenseKey_of m) =
           bucket_entries (filter (\<lambda>x. licenseKey_of x = licenseKey_of m) ms)"
  proof (cases "licenseKey_of m \<in> licenseKey_of ` set ms")
    case True
    then show ?thesis by (simp add: bucket_of_def map_get_def snoc)
  next
    case False
    then have "\<forall>x\<in>set ms. licenseKey_of x \<noteq> licenseKey_of m"
      by (metis imageI)
    then have "filter (\<lambda>x. licenseKey_of x = licenseKey_of m) ms = []"
      by (simp add: filter_empty_conv)
    with False show ?thesis by (simp add: bucket_of_def map_get_def snoc bucket_entries_def)
  qed
  show ?case
  proof (cases "k = licenseKey_of m")
    case True
    then show ?thesis
      by (simp add: map_of_put b bucket_entries_snoc)
  next
    case False
    then show ?thesis
      by (auto simp add: map_of_put snoc)
  qed
qed

lemma keys_bucket_entries: "map fst (bucket_entries ms) = first_seen (map package_key ms)"
proof (induction ms rule: rev_induct)
  case Nil
  then show ?case by (simp add: bucket_entries_def)
next
  case (snoc m ms)
  have "set (map fst (bucket_entries ms)) = package_key ` set ms"
    by (simp only: snoc set_first_seen) simp
  with snoc show ?case
    by (simp add: bucket_entries_snoc keys_map_set first_seen_snoc)
qed

lemma map_of_bucket_entries:
  "map_of (bucket_entries ms) pk =
     (if pk \<in> package_key ` set ms
      then Some (license_info (last (filter (\<lambda>m. package_key m = pk) ms))) else None)"
proof (induction ms rule: rev_induct)
  case Nil
  then show ?case by (simp add: bucket_entries_def)
next
  case (snoc m ms)
  then show ?case
    by (auto simp add: bucket_entries_snoc map_of_map_set)
qed

lemma distinct_keys_grouped: "distinct (map fst (foldl put [] ms))"
  by (simp only: keys_grouped distinct_first_seen)

lemma distinct_keys_bucket_entries: "distinct (map fst (bucket_entries ms))"
  by (simp only: keys_bucket_entries distinct_first_seen)

lemma grouped_bucket:
  assumes "(k, bucket) \<in> set (foldl put [] ms)"
  shows "bucket = bucket_entries (filter (\<lambda>m. licenseKey_of m = k) ms)"
proof -
  from assms have "map_of (foldl put [] ms) k = Some bucket"
    by (simp add: distinct_keys_grouped)
  then show ?thesis
    by (simp add: map_of_grouped split: if_splits)
qed

lemma bucket_entry:
  assumes "(pk, info) \<in> set (bucket_entries ms)"
  shows "info = license_info (last (filter (\<lambda>m. package_key m = pk) ms))"
    and "filter (\<lambda>m. package_key m = pk) ms \<noteq> []"
proof -
  from assms have "map_of (bucket_entries ms) pk = Some info"
    by (simp add: distinct_keys_bucket_entries)
  then have *: "pk \<in> package_key ` set ms \<and>
      info = license_info (last (filter (\<lambda>m. package_key m = pk) ms))"
    by (simp add: map_of_bucket_entries split: if_splits)
  then show "info = license_info (last (filter (\<lambda>m. package_key m = pk) ms))" by simp
  from * show "filter (\<lambda>m. package_key m = pk) ms \<noteq> []"
    by (auto simp: filter_empty_conv)
qed

lemma grouped_entry:
  assumes "(k, bucket) \<in> set (foldl put [] ms)" and "(pk, info) \<in> set bucket"
  shows "info = license_info (last (filter (\<lambda>m. licenseKey_of m = k \<and> package_key m = pk) ms))"
    and "filter (\<lambda>m. licenseKey_of m = k \<and> package_key m = pk) ms \<noteq> []"
proof -
  from assms have e: "(pk, info) \<in> set (bucket_entries (filter (\<lambda>m. licenseKey_of m = k) ms))"
    using grouped_bucket by blast
  have f: "filter (\<lambda>m. package_key m = pk) (filter (\<lambda>m. licenseKey_of m = k) ms) =
           filter (\<lambda>m. licenseKey_of m = k \<and> package_key m = pk) ms"
    by simp
  from bucket_entry(1)[OF e] f
  show "info = license_info (last (filter (\<lambda>m. licenseKey_of m = k \<and> package_key m = pk) ms))"
    by simp
  from bucket_entry(2)[OF e] f
  show "filter (\<lambda>m. licenseKey_of m = k \<and> package_key m = pk) ms \<noteq> []"
    by simp
qed

lemma grouped_entry_source:
  assumes "(k, bucket) \<in> set (foldl put [] ms)" and "(pk, info) \<in> set bucket"
  shows "\<exists>m\<in>set ms. licenseKey_of m = k \<and> package_key m = pk \<and> info = license_info m"
proof -
  let ?F = "filter (\<lambda>m. licenseKey_of m = k \<and> package_key m = pk) ms"
  from grouped_entry[OF assms] have i: "info = license_info (last ?F)" and ne: "?F \<noteq> []"
    by simp_all
  from ne have "last ?F \<in> set ?F" by (rule last_in_set)
  with i show ?thesis by auto
qed

lemma group_prefix_step:
  assumes "n < length ms"
  shows "list_step (ms ! n) (foldl put [] (take n ms)) = group_by_license (take (Suc n) ms)"
  using assms by (simp add: group_foldl list_step_put take_Suc_conv_app_nth)

text \<open>
  C8: the grouping loop never throws; the license keys of the result are distinct and stand
  in the order in which they are first seen; in every bucket the package keys are distinct
  and stand in the order of their first insertion, and the entry under a package key is the
  one of the last manifest with that license key and package key. The state before each
  turn of the loop is the grouping of the manifests processed so far, so keys are unique
  there too.
\<close>

theorem group_unique_keys_last_write_wins:
  "\<exists>B. group_by_license ms = Inr B \<and>
     map fst B = first_seen (map licenseKey_of ms) \<and> distinct (map fst B) \<and>
     (\<forall>(k, bucket)\<in>set B.
        map fst bucket = first_seen (map package_key (filter (\<lambda>m. licenseKey_of m = k) ms)) \<and>
        distinct (map fst bucket) \<and>
        (\<forall>(pk, info)\<in>set bucket.
           info = license_info (last (filter (\<lambda>m. licenseKey_of m = k \<and> package_key m = pk) ms)))) \<and>
     (\<forall>n<length ms. \<exists>Bn. group_by_license (take n ms) = Inr Bn \<and>
        distinct (map fst Bn) \<and> (\<forall>b\<in>set Bn. distinct (map fst (snd b))) \<and>
        list_step (ms ! n) Bn = group_by_license (take (Suc n) ms))"
proof -
  let ?B = "foldl put [] ms"
  have 1: "group_by_license ms = Inr ?B" by (rule group_foldl)
  have 2: "map fst ?B = first_seen (map licenseKey_of ms)" by (rule keys_grouped)
  have 3: "distinct (map fst ?B)" by (rule distinct_keys_grouped)
  have 4: "\<forall>(k, bucket)\<in>set ?B.
        map fst bucket = first_seen (map package_key (filter (\<lambda>m. licenseKey_of m = k) ms)) \<and>
        distinct (map fst bucket) \<and>
        (\<forall>(pk, info)\<in>set bucket.
           info = license_info (last (filter (\<lambda>m. licenseKey_of m = k \<and> package_key m = pk) ms)))"
  proof (clarify, intro conjI)
    fix k bucket
    assume kb: "(k, bucket) \<in> set ?B"
    then have b: "bucket = bucket_entries (filter (\<lambda>m. licenseKey_of m = k) ms)"
      by (rule grouped_bucket)
    show "map fst bucket = first_seen (map package_key (filter (\<lambda>m. licenseKey_of m = k) ms))"
      by (simp only: b keys_bucket_entries)
    show "distinct (map fst bucket)"
      by (simp only: b distinct_keys_bucket_entries)
    show "\<forall>(pk, info)\<in>set bucket.
           info = license_info (last (filter (\<lambda>m. licenseKey_of m = k \<and> package_key m = pk) ms))"
      using grouped_entry(1)[OF kb] by blast
  qed
  have 5: "\<forall>n<length ms. \<exists>Bn. group_by_license (take n ms) = Inr Bn \<and>
        distinct (map fst Bn) \<and> (\<forall>b\<in>set Bn. distinct (map fst (snd b))) \<and>
        list_step (ms ! n) Bn = group_by_license (take (Suc n) ms)"
  proof (intro allI impI)
    fix n assume n: "n < length ms"
    let ?Bn = "foldl put [] (take n ms)"
    have "\<forall>b\<in>set ?Bn. distinct (map fst (snd b))"
    proof
      fix b assume "b \<in> set ?Bn"
      then have "(fst b, snd b) \<in> set ?Bn" by simp
      from grouped_bucket[OF this] show "distinct (map fst (snd b))"
        by (metis distinct_keys_bucket_entries)
    qed
    with group_prefix_step[OF n] show "\<exists>Bn. group_by_license (take n ms) = Inr Bn \<and>
        distinct (map fst Bn) \<and> (\<forall>b\<in>set Bn. distinct (map fst (snd b))) \<and>
        list_step (ms ! n) Bn = group_by_license (take (Suc n) ms)"
      using group_foldl distinct_keys_grouped by blast
  qed
  from 1 2 3 4 5 show ?thesis by blast
qed

text \<open>The definitions unfolded to run the command on a concrete list.\<close>

lemmas eval_defs =
  group_by_license_def list_step_def Let_def map_has_def map_get_def licenseKey_of_def or_default_def
  package_key_def toString_def license_info_def package_def or_else_def truthy_def
  getManifests_def sort_by_def compare_names_def not_ignored_def

text \<open>Four manifests, two of them \<open>b@1.0\<close> under MIT: the second one wins, in the first one's place.\<close>

theorem group_unique_keys_last_write_wins_witness:
  "group_by_license [(package ''b'' ''1.0'')\<lparr>license := Some ''MIT'', homepage := Some ''first''\<rparr>,
          package ''c'' ''1.0'',
          (package ''a'' ''2.0'')\<lparr>license := Some ''MIT''\<rparr>,
          (package ''b'' ''1.0'')\<lparr>license := Some ''MIT'', homepage := Some ''second''\<rparr>] =
     Inr [(''MIT'',
           [(''b@1.0'', \<lparr>pkg_name = Some ''b'', pkg_version = ''1.0'', url = Some ''second'',
                         vendorUrl = Some ''second'', vendorName = None\<rparr>),
            (''a@2.0'', \<lparr>pkg_name = Some ''a'', pkg_version = ''2.0'', url = None,
                         vendorUrl = None, vendorName = None\<rparr>)]),
          (''UNKNOWN'',
           [(''c@1.0'', \<lparr>pkg_name = Some ''c'', pkg_version = ''1.0'', url = None,
                         vendorUrl = None, vendorName = None\<rparr>)])] \<and>
   first_seen (map licenseKey_of
         [(package ''b'' ''1.0'')\<lparr>license := Some ''MIT'', homepage := Some ''first''\<rparr>,
          package ''c'' ''1.0'',
          (package ''a'' ''2.0'')\<lparr>license := Some ''MIT''\<rparr>,
          (package ''b'' ''1.0'')\<lparr>license := Some ''MIT'', homepage := Some ''second''\<rparr>]) =
     [''MIT'', ''UNKNOWN'']"
  using group_unique_keys_last_write_wins
    [of "[(package ''b'' ''1.0'')\<lparr>license := Some ''MIT'', homepage := Some ''first''\<rparr>,
          package ''c'' ''1.0'',
          (package ''a'' ''2.0'')\<lparr>license := Some ''MIT''\<rparr>,
          (package ''b'' ''1.0'')\<lparr>license := Some ''MIT'', homepage := Some ''second''\<rparr>]"]
  by (simp add: eval_defs)

lemma grouped_has:
  assumes "m \<in> set ms"
  shows "\<exists>bucket. map_get (foldl put [] ms) (licenseKey_of m) = Some bucket \<and>
           map_has bucket (package_key m)"
proof -
  let ?F = "filter (\<lambda>x. licenseKey_of x = licenseKey_of m) ms"
  from assms have k: "licenseKey_of m \<in> licenseKey_of ` set ms" by (rule imageI)
  from assms have "m \<in> set ?F" by simp
  then have "package_key m \<in> package_key ` set ?F" by (rule imageI)
  then have "map_has (bucket_entries ?F) (package_key m)"
    by (simp add: map_has_def map_of_bucket_entries)
  with k show ?thesis by (simp add: map_get_def map_of_grouped)
qed

lemma one_bucket_per_key:
  "distinct (map fst B) \<Longrightarrow> k \<in> set (map fst B) \<Longrightarrow> length (filter (\<lambda>b. fst b = k) B) = 1"
proof (induction B)
  case Nil
  then show ?case by simp
next
  case (Cons b B)
  show ?case
  proof (cases "fst b = k")
    case True
    from Cons.prems(1) have "fst b \<notin> fst ` set B" by simp
    with True have "\<forall>x\<in>set B. fst x \<noteq> k" by (metis imageI)
    then have "filter (\<lambda>b. fst b = k) B = []" by (simp add: filter_empty_conv)
    with True show ?thesis by simp
  next
    case False
    with Cons show ?thesis by simp
  qed
qed

lemma set_getManifests: "set (getManifests lc M) = {m \<in> set M. not_ignored m}"
proof -
  have "set (sort_by (compare_names lc) M) = set M"
    by (metis mset_sort_by set_mset_mset)
  then show ?thesis by (auto simp: getManifests_def)
qed

lemma not_ignored_iff: "not_ignored m \<longleftrightarrow> (\<exists>r. reference m = Some r \<and> \<not> ignore r)"
  by (auto simp: not_ignored_def split: option.splits)

lemma grouped_lookup:
  assumes "m \<in> set ms"
  shows "\<exists>bucket. map_get (foldl put [] ms) (licenseKey_of m) = Some bucket \<and>
           map_has bucket (package_key m) \<and>
           length (filter (\<lambda>e. fst e = package_key m) bucket) = 1 \<and>
           map_get bucket (package_key m) =
             Some (license_info (last (filter
               (\<lambda>x. licenseKey_of x = licenseKey_of m \<and> package_key x = package_key m) ms)))"
proof -
  let ?F = "filter (\<lambda>x. licenseKey_of x = licenseKey_of m) ms"
  from assms have k: "licenseKey_of m \<in> licenseKey_of ` set ms" by (rule imageI)
  from assms have "m \<in> set ?F" by simp
  then have pk: "package_key m \<in> package_key ` set ?F" by (rule imageI)
  have f: "filter (\<lambda>x. package_key x = package_key m) ?F =
           filter (\<lambda>x. licenseKey_of x = licenseKey_of m \<and> package_key x = package_key m) ms"
    by simp
  from k have 1: "map_get (foldl put [] ms) (licenseKey_of m) = Some (bucket_entries ?F)"
    by (simp add: map_get_def map_of_grouped)
  from pk have 2: "map_has (bucket_entries ?F) (package_key m)"
    by (simp add: map_has_def map_of_bucket_entries)
  from pk have "package_key m \<in> set (map fst (bucket_entries ?F))"
    by (simp only: keys_bucket_entries set_first_seen) simp
  then have 3: "length (filter (\<lambda>e. fst e = package_key m) (bucket_entries ?F)) = 1"
    by (rule one_bucket_per_key[OF distinct_keys_bucket_entries])
  from pk have 4: "map_get (bucket_entries ?F) (package_key m) =
             Some (license_info (last (filter
               (\<lambda>x. licenseKey_of x = licenseKey_of m \<and> package_key x = package_key m) ms)))"
    by (simp only: map_get_def map_of_bucket_entries f if_True)
  from 1 2 3 4 show ?thesis by blast
qed

text \<open>
  C4, as the code has it: for every manifest list, grouping what \<open>getManifests\<close> returns does
  not throw and the license keys of the buckets are distinct; for every manifest whose
  reference is present and not ignored there is exactly one bucket keyed by its license key,
  which is its license when that is a non-empty string and \<open>UNKNOWN\<close> when it is absent or
  empty; that bucket has exactly one entry under the manifest's package key, and this entry
  is the record of the last manifest, in the order of \<open>getManifests\<close>, with that license key
  and package key. The package keys of every bucket are distinct, and every entry of every
  bucket is the record of a manifest whose reference is present and not ignored, the last
  one with the license key of the bucket and the package key of the entry.
\<close>

theorem kept_manifest_in_bucket_of_its_license:
  "\<exists>B. group_by_license (getManifests localeCompare M) = Inr B \<and>
     distinct (map fst B) \<and>
     (\<forall>m\<in>set M. (\<exists>r. reference m = Some r \<and> \<not> ignore r) \<longrightarrow>
        licenseKey_of m =
          (case license m of None \<Rightarrow> ''UNKNOWN'' | Some l \<Rightarrow> if l = [] then ''UNKNOWN'' else l) \<and>
        length (filter (\<lambda>b. fst b = licenseKey_of m) B) = 1 \<and>
        (\<exists>bucket. map_get B (licenseKey_of m) = Some bucket \<and> map_has bucket (package_key m) \<and>
           length (filter (\<lambda>e. fst e = package_key m) bucket) = 1 \<and>
           map_get bucket (package_key m) =
             Some (license_info (last (filter
               (\<lambda>x. licenseKey_of x = licenseKey_of m \<and> package_key x = package_key m)
               (getManifests localeCompare M)))))) \<and>
     (\<forall>(k, bucket)\<in>set B. distinct (map fst bucket) \<and>
        (\<forall>(pk, info)\<in>set bucket.
           (\<exists>m\<in>set M. (\<exists>r. reference m = Some r \<and> \<not> ignore r) \<and>
              licenseKey_of m = k \<and> package_key m = pk \<and> info = license_info m) \<and>
           info = license_info (last (filter
               (\<lambda>x. licenseKey_of x = k \<and> package_key x = pk) (getManifests localeCompare M)))))"
proof -
  let ?ms = "getManifests localeCompare M"
  let ?B = "foldl put [] ?ms"
  have 1: "group_by_license ?ms = Inr ?B" by (rule group_foldl)
  have d: "distinct (map fst ?B)" by (rule distinct_keys_grouped)
  have 2: "\<forall>m\<in>set M. (\<exists>r. reference m = Some r \<and> \<not> ignore r) \<longrightarrow>
        licenseKey_of m =
          (case license m of None \<Rightarrow> ''UNKNOWN'' | Some l \<Rightarrow> if l = [] then ''UNKNOWN'' else l) \<and>
        length (filter (\<lambda>b. fst b = licenseKey_of m) ?B) = 1 \<and>
        (\<exists>bucket. map_get ?B (licenseKey_of m) = Some bucket \<and> map_has bucket (package_key m) \<and>
           length (filter (\<lambda>e. fst e = package_key m) bucket) = 1 \<and>
           map_get bucket (package_key m) =
             Some (license_info (last (filter
               (\<lambda>x. licenseKey_of x = licenseKey_of m \<and> package_key x = package_key m) ?ms))))"
  proof (intro ballI impI conjI)
    fix m assume m: "m \<in> set M" and r: "\<exists>r. reference m = Some r \<and> \<not> ignore r"
    then have in_ms: "m \<in> set ?ms" by (simp add: set_getManifests not_ignored_iff)
    show "licenseKey_of m =
          (case license m of None \<Rightarrow> ''UNKNOWN'' | Some l \<Rightarrow> if l = [] then ''UNKNOWN'' else l)"
      by (simp add: licenseKey_of_def or_default_def)
    from in_ms have "licenseKey_of m \<in> set (map fst ?B)"
      by (simp only: keys_grouped set_first_seen) simp
    then show "length (filter (\<lambda>b. fst b = licenseKey_of m) ?B) = 1"
      by (rule one_bucket_per_key[OF distinct_keys_grouped])
    from in_ms show "\<exists>bucket. map_get ?B (licenseKey_of m) = Some bucket \<and>
           map_has bucket (package_key m) \<and>
           length (filter (\<lambda>e. fst e = package_key m) bucket) = 1 \<and>
           map_get bucket (package_key m) =
             Some (license_info (last (filter
               (\<lambda>x. licenseKey_of x = licenseKey_of m \<and> package_key x = package_key m) ?ms)))"
      by (rule grouped_lookup)
  qed
  have 3: "\<forall>(k, bucket)\<in>set ?B. distinct (map fst bucket) \<and>
        (\<forall>(pk, info)\<in>set bucket.
           (\<exists>m\<in>set M. (\<exists>r. reference m = Some r \<and> \<not> ignore r) \<and>
              licenseKey_of m = k \<and> package_key m = pk \<and> info = license_info m) \<and>
           info = license_info (last (filter
               (\<lambda>x. licenseKey_of x = k \<and> package_key x = pk) ?ms)))"
  proof (clarify, intro conjI)
    fix k bucket
    assume kb: "(k, bucket) \<in> set ?B"
    from grouped_bucket[OF kb] show "distinct (map fst bucket)"
      by (simp only: distinct_keys_bucket_entries)
    show "\<forall>(pk, info)\<in>set bucket.
           (\<exists>m\<in>set M. (\<exists>r. reference m = Some r \<and> \<not> ignore r) \<and>
              licenseKey_of m = k \<and> package_key m = pk \<and> info = license_info m) \<and>
           info = license_info (last (filter
               (\<lambda>x. licenseKey_of x = k \<and> package_key x = pk) ?ms))"
    proof (clarify, intro conjI)
      fix pk info
      assume e: "(pk, info) \<in> set bucket"
      from kb e obtain m where "m \<in> set ?ms" and *: "licenseKey_of m = k" "package_key m = pk"
          "info = license_info m"
        using grouped_entry_source by blast
      then have "m \<in> set M" and "\<exists>r. reference m = Some r \<and> \<not> ignore r"
        by (simp_all add: set_getManifests not_ignored_iff)
      with * show "\<exists>m\<in>set M. (\<exists>r. reference m = Some r \<and> \<not> ignore r) \<and>
            licenseKey_of m = k \<and> package_key m = pk \<and> info = license_info m"
        by blast
      from kb e show "info = license_info (last (filter
               (\<lambda>x. licenseKey_of x = k \<and> package_key x = pk) ?ms))"
        by (rule grouped_entry(1))
    qed
  qed
  from 1 d 2 3 show ?thesis by blast
qed

text \<open>
  Four manifests: one ignored, one with an empty license, and two \<open>b@1.0\<close> under MIT, of
  which the one that comes last after the sort is kept.
\<close>

theorem kept_manifest_in_bucket_of_its_license_witness:
  "group_by_license (getManifests ordinalCompare
      [(package ''b'' ''1.0'')\<lparr>license := Some ''MIT'', homepage := Some ''first''\<rparr>,
       (package ''z'' ''0.1'')\<lparr>reference := Some \<lparr>ignore = True\<rparr>\<rparr>,
       (package ''a'' ''2.0'')\<lparr>license := Some []\<rparr>,
       (package ''b'' ''1.0'')\<lparr>license := Some ''MIT'', homepage := Some ''second''\<rparr>]) =
     Inr [(''UNKNOWN'',
           [(''a@2.0'', \<lparr>pkg_name = Some ''a'', pkg_version = ''2.0'', url = None,
                         vendorUrl = None, vendorName = None\<rparr>)]),
          (''MIT'',
           [(''b@1.0'', \<lparr>pkg_name = Some ''b'', pkg_version = ''1.0'', url = Some ''second'',
                         vendorUrl = Some ''second'', vendorName = None\<rparr>)])] \<and>
   licenseKey_of ((package ''a'' ''2.0'')\<lparr>license := Some []\<rparr>) = ''UNKNOWN'' \<and>
   last (filter (\<lambda>x. licenseKey_of x = ''MIT'' \<and> package_key x = ''b@1.0'')
     (getManifests ordinalCompare
      [(package ''b'' ''1.0'')\<lparr>license := Some ''MIT'', homepage := Some ''first''\<rparr>,
       (package ''z'' ''0.1'')\<lparr>reference := Some \<lparr>ignore = True\<rparr>\<rparr>,
       (package ''a'' ''2.0'')\<lparr>license := Some []\<rparr>,
       (package ''b'' ''1.0'')\<lparr>license := Some ''MIT'', homepage := Some ''second''\<rparr>])) =
     (package ''b'' ''1.0'')\<lparr>license := Some ''MIT'', homepage := Some ''second''\<rparr>"
  using kept_manifest_in_bucket_of_its_license [of ordinalCompare
      "[(package ''b'' ''1.0'')\<lparr>license := Some ''MIT'', homepage := Some ''first''\<rparr>,
       (package ''z'' ''0.1'')\<lparr>reference := Some \<lparr>ignore = True\<rparr>\<rparr>,
       (package ''a'' ''2.0'')\<lparr>license := Some []\<rparr>,
       (package ''b'' ''1.0'')\<lparr>license := Some ''MIT'', homepage := Some ''second''\<rparr>]"]
  by (simp add: eval_defs)

text \<open>
  C4 as it is stated fails twice. Two manifests with the same name, version and license
  leave one entry, the second one's, so the first manifest is in no bucket. And a manifest
  whose license is present and empty is not under its license value but under \<open>UNKNOWN\<close>.
\<close>

theorem one_bucket_per_manifest_counterexample:
  "group_by_license (getManifests ordinalCompare
      [(package ''a'' ''1.0'')\<lparr>license := Some ''MIT'', homepage := Some ''first''\<rparr>,
       (package ''a'' ''1.0'')\<lparr>license := Some ''MIT'', homepage := Some ''second''\<rparr>]) =
     Inr [(''MIT'',
           [(''a@1.0'', \<lparr>pkg_name = Some ''a'', pkg_version = ''1.0'', url = Some ''second'',
                         vendorUrl = Some ''second'', vendorName = None\<rparr>)])] \<and>
   license_info ((package ''a'' ''1.0'')\<lparr>license := Some ''MIT'', homepage := Some ''first''\<rparr>) \<noteq>
     \<lparr>pkg_name = Some ''a'', pkg_version = ''1.0'', url = Some ''second'',
      vendorUrl = Some ''second'', vendorName = None\<rparr> \<and>
   license ((package ''e'' ''1.0'')\<lparr>license := Some []\<rparr>) = Some [] \<and>
   group_by_license (getManifests ordinalCompare [(package ''e'' ''1.0'')\<lparr>license := Some []\<rparr>]) =
     Inr [(''UNKNOWN'',
           [(''e@1.0'', \<lparr>pkg_name = Some ''e'', pkg_version = ''1.0'', url = None,
                         vendorUrl = None, vendorName = None\<rparr>)])]"
  by (simp add: eval_defs)

lemma put_empty_license:
  "license m = Some [] \<Longrightarrow> put B (m\<lparr>license := None\<rparr>) = put B m"
  by (cases "repository m")
    (simp_all add: put_def licenseKey_of_def or_default_def package_key_def license_info_def)

lemma foldl_put_empty_license:
  "foldl put B (map (\<lambda>m. if license m = Some [] then m\<lparr>license := None\<rparr> else m) ms) =
   foldl put B ms"
  by (induction ms arbitrary: B) (simp_all add: put_empty_license)

lemma licenseKey_of_cases:
  "licenseKey_of m \<noteq> [] \<and> (licenseKey_of m = ''UNKNOWN'' \<or> license m = Some (licenseKey_of m))"
  by (simp add: licenseKey_of_def or_default_def split: option.splits)

text \<open>
  C10: a manifest whose license is the empty string is processed exactly as the same
  manifest without a license, and is found in the \<open>UNKNOWN\<close> bucket; replacing every empty
  license by an absent one changes nothing in the grouping; and every bucket key is a
  non-empty string, either \<open>UNKNOWN\<close> or the license of a manifest.
\<close>

theorem empty_license_grouped_as_unknown:
  "\<exists>B. group_by_license ms = Inr B \<and>
     (\<forall>m\<in>set ms. license m = Some [] \<longrightarrow>
        list_step m = list_step (m\<lparr>license := None\<rparr>) \<and>
        (\<exists>bucket. map_get B ''UNKNOWN'' = Some bucket \<and> map_has bucket (package_key m))) \<and>
     group_by_license (map (\<lambda>m. if license m = Some [] then m\<lparr>license := None\<rparr> else m) ms) = group_by_license ms \<and>
     (\<forall>k\<in>set (map fst B). k \<noteq> [] \<and> (k = ''UNKNOWN'' \<or> (\<exists>m\<in>set ms. license m = Some k)))"
proof -
  let ?B = "foldl put [] ms"
  have 1: "group_by_license ms = Inr ?B" by (rule group_foldl)
  have 2: "\<forall>m\<in>set ms. license m = Some [] \<longrightarrow>
        list_step m = list_step (m\<lparr>license := None\<rparr>) \<and>
        (\<exists>bucket. map_get ?B ''UNKNOWN'' = Some bucket \<and> map_has bucket (package_key m))"
  proof (intro ballI impI conjI)
    fix m assume m: "m \<in> set ms" and e: "license m = Some []"
    show "list_step m = list_step (m\<lparr>license := None\<rparr>)"
      by (simp add: fun_eq_iff list_step_put put_empty_license[OF e])
    from e have "licenseKey_of m = ''UNKNOWN''"
      by (simp add: licenseKey_of_def or_default_def)
    with grouped_has[OF m]
    show "\<exists>bucket. map_get ?B ''UNKNOWN'' = Some bucket \<and> map_has bucket (package_key m)"
      by simp
  qed
  have 3: "group_by_license (map (\<lambda>m. if license m = Some [] then m\<lparr>license := None\<rparr> else m) ms) = group_by_license ms"
    by (simp only: group_foldl foldl_put_empty_license)
  have 4: "\<forall>k\<in>set (map fst ?B). k \<noteq> [] \<and> (k = ''UNKNOWN'' \<or> (\<exists>m\<in>set ms. license m = Some k))"
  proof
    fix k assume "k \<in> set (map fst ?B)"
    then have "k \<in> licenseKey_of ` set ms"
      by (simp only: keys_grouped set_first_seen) simp
    then obtain m where "m \<in> set ms" and "k = licenseKey_of m" by blast
    with licenseKey_of_cases[of m]
    show "k \<noteq> [] \<and> (k = ''UNKNOWN'' \<or> (\<exists>m\<in>set ms. license m = Some k))" by auto
  qed
  from 1 2 3 4 show ?thesis by blast
qed

text \<open>An empty license, a license and no license.\<close>

theorem empty_license_grouped_as_unknown_witness:
  "group_by_license [(package ''a'' ''1.0'')\<lparr>license := Some []\<rparr>, (package ''b'' ''1.0'')\<lparr>license := Some ''MIT''\<rparr>,
          package ''c'' ''1.0''] =
     Inr [(''UNKNOWN'',
           [(''a@1.0'', \<lparr>pkg_name = Some ''a'', pkg_version = ''1.0'', url = None,
                         vendorUrl = None, vendorName = None\<rparr>),
            (''c@1.0'', \<lparr>pkg_name = Some ''c'', pkg_version = ''1.0'', url = None,
                         vendorUrl = None, vendorName = None\<rparr>)]),
          (''MIT'',
           [(''b@1.0'', \<lparr>pkg_name = Some ''b'', pkg_version = ''1.0'', url = None,
                         vendorUrl = None, vendorName = None\<rparr>)])] \<and>
   group_by_license [(package ''a'' ''1.0'')\<lparr>license := None\<rparr>, (package ''b'' ''1.0'')\<lparr>license := Some ''MIT''\<rparr>,
          package ''c'' ''1.0''] =
   group_by_license [(package ''a'' ''1.0'')\<lparr>license := Some []\<rparr>, (package ''b'' ''1.0'')\<lparr>license := Some ''MIT''\<rparr>,
          package ''c'' ''1.0'']"
  using empty_license_grouped_as_unknown
    [of "[(package ''a'' ''1.0'')\<lparr>license := Some []\<rparr>, (package ''b'' ''1.0'')\<lparr>license := Some ''MIT''\<rparr>,
          package ''c'' ''1.0'']"]
  by (simp add: eval_defs)

section \<open>The derived fields\<close>

lemma map_get_put:
  "map_get (put B m) (licenseKey_of m) =
     Some (map_set (bucket_of B (licenseKey_of m)) (package_key m) (license_info m))"
  by (simp add: map_get_def map_of_put)

text \<open>
  C2, as the code has it: after a manifest is processed, the entry under its license key
  and package key has as url the \<open>url\<close> property of the manifest's repository object when the
  manifest has a repository object (absent when that object has no url), and the homepage
  when it has none; and every entry of a grouping has the url of a manifest of the list,
  derived so.
\<close>

theorem url_of_repository_object_else_homepage:
  "(\<exists>B' bucket info. list_step m B = Inr B' \<and>
      map_get B' (licenseKey_of m) = Some bucket \<and>
      map_get bucket (package_key m) = Some info \<and>
      url info = (case repository m of None \<Rightarrow> homepage m | Some r \<Rightarrow> repository_url r)) \<and>
   (\<exists>G. group_by_license ms = Inr G \<and>
      (\<forall>(k, bucket)\<in>set G. \<forall>(pk, info)\<in>set bucket.
         \<exists>m'\<in>set ms. licenseKey_of m' = k \<and> package_key m' = pk \<and>
           url info = (case repository m' of None \<Rightarrow> homepage m' | Some r \<Rightarrow> repository_url r)))"
proof (intro conjI)
  let ?bucket = "map_set (bucket_of B (licenseKey_of m)) (package_key m) (license_info m)"
  have 1: "list_step m B = Inr (put B m)" by (rule list_step_put)
  have 2: "map_get (put B m) (licenseKey_of m) = Some ?bucket" by (rule map_get_put)
  have 3: "map_get ?bucket (package_key m) = Some (license_info m)"
    by (simp add: map_get_def map_of_map_set)
  have 4: "url (license_info m) =
      (case repository m of None \<Rightarrow> homepage m | Some r \<Rightarrow> repository_url r)"
    by (simp add: license_info_def split: option.splits)
  from 1 2 3 4
  show "\<exists>B' bucket info. list_step m B = Inr B' \<and>
      map_get B' (licenseKey_of m) = Some bucket \<and>
      map_get bucket (package_key m) = Some info \<and>
      url info = (case repository m of None \<Rightarrow> homepage m | Some r \<Rightarrow> repository_url r)"
    by blast
next
  have "\<forall>(k, bucket)\<in>set (foldl put [] ms). \<forall>(pk, info)\<in>set bucket.
         \<exists>m'\<in>set ms. licenseKey_of m' = k \<and> package_key m' = pk \<and>
           url info = (case repository m' of None \<Rightarrow> homepage m' | Some r \<Rightarrow> repository_url r)"
  proof clarify
    fix k bucket pk info
    assume "(k, bucket) \<in> set (foldl put [] ms)" and "(pk, info) \<in> set bucket"
    then obtain m' where "m' \<in> set ms" "licenseKey_of m' = k" "package_key m' = pk"
        and i: "info = license_info m'"
      using grouped_entry_source by blast
    moreover from i have "url info =
        (case repository m' of None \<Rightarrow> homepage m' | Some r \<Rightarrow> repository_url r)"
      by (simp add: license_info_def split: option.splits)
    ultimately show "\<exists>m'\<in>set ms. licenseKey_of m' = k \<and> package_key m' = pk \<and>
           url info = (case repository m' of None \<Rightarrow> homepage m' | Some r \<Rightarrow> repository_url r)"
      by blast
  qed
  with group_foldl[of ms]
  show "\<exists>G. group_by_license ms = Inr G \<and>
      (\<forall>(k, bucket)\<in>set G. \<forall>(pk, info)\<in>set bucket.
         \<exists>m'\<in>set ms. licenseKey_of m' = k \<and> package_key m' = pk \<and>
           url info = (case repository m' of None \<Rightarrow> homepage m' | Some r \<Rightarrow> repository_url r))"
    by blast
qed

text \<open>A manifest with a repository url and a homepage, and one with a homepage only.\<close>

theorem url_of_repository_object_else_homepage_witness:
  "list_step ((package ''x'' ''1.0'')
       \<lparr>repository := Some \<lparr>repository_url = Some ''git://x''\<rparr>, homepage := Some ''http://x''\<rparr>) [] =
     Inr [(''UNKNOWN'',
           [(''x@1.0'', \<lparr>pkg_name = Some ''x'', pkg_version = ''1.0'', url = Some ''git://x'',
                         vendorUrl = Some ''http://x'', vendorName = None\<rparr>)])] \<and>
   group_by_license [(package ''y'' ''2.0'')\<lparr>homepage := Some ''http://y''\<rparr>] =
     Inr [(''UNKNOWN'',
           [(''y@2.0'', \<lparr>pkg_name = Some ''y'', pkg_version = ''2.0'', url = Some ''http://y'',
                         vendorUrl = Some ''http://y'', vendorName = None\<rparr>)])]"
  using url_of_repository_object_else_homepage
    [of "(package ''x'' ''1.0'')
       \<lparr>repository := Some \<lparr>repository_url = Some ''git://x''\<rparr>, homepage := Some ''http://x''\<rparr>"
     "[]" "[(package ''y'' ''2.0'')\<lparr>homepage := Some ''http://y''\<rparr>]"]
  by (simp add: eval_defs)

text \<open>
  C2 as it is stated fails for a manifest whose repository object has no url: the code looks
  at the object only, so the url stays absent although there is a homepage.
\<close>

theorem url_without_repository_url_counterexample:
  "group_by_license [(package ''x'' ''1.0'')
       \<lparr>repository := Some \<lparr>repository_url = None\<rparr>, homepage := Some ''http://x''\<rparr>] =
     Inr [(''UNKNOWN'',
           [(''x@1.0'', \<lparr>pkg_name = Some ''x'', pkg_version = ''1.0'', url = None,
                         vendorUrl = Some ''http://x'', vendorName = None\<rparr>)])] \<and>
   url_as_stated ((package ''x'' ''1.0'')
       \<lparr>repository := Some \<lparr>repository_url = None\<rparr>, homepage := Some ''http://x''\<rparr>) =
     Some ''http://x''"
  by (simp add: eval_defs url_as_stated_def)

section \<open>The table\<close>




lemma list_all2_map_self: "(\<And>x. x \<in> set xs \<Longrightarrow> P x (f x)) \<Longrightarrow> list_all2 P xs (map f xs)"
  by (induction xs) auto



section \<open>The tree\<close>

lemma toString_truthy: "truthy v \<Longrightarrow> toString v = the v"
  by (auto simp: truthy_def toString_def split: option.splits)

lemma package_children_leaves:
  "package_children bold info =
     (if truthy (url info) then [Leaf (bold ''URL:'' @ '' '' @ the (url info))] else []) @
     (if truthy (vendorUrl info)
      then [Leaf (bold ''VendorUrl:'' @ '' '' @ the (vendorUrl info))] else []) @
     (if truthy (vendorName info)
      then [Leaf (bold ''VendorName:'' @ '' '' @ the (vendorName info))] else [])"
  by (simp add: package_children_def toString_truthy)

lemma length_package_children: "length (package_children bold info) \<le> 3"
  by (simp add: package_children_def)

text \<open>
  C6, as the code has it: without the \<open>json\<close> flag, \<open>list\<close> hands the reporter the root label
  \<open>licenses\<close>, the option \<open>force\<close> set, and one node per bucket in bucket order, labelled with
  the license key; a bucket's node has one child per entry in entry order, labelled
  \<open>name@version\<close>, which is the entry's package key; and the children of a package node are
  at most three leaves, in the order URL, VendorUrl, VendorName, a leaf being there if and
  only if the field is present and not the empty string.
\<close>

theorem tree_of_grouping:
  "\<exists>B trees. group_by_license (getManifests localeCompare M) = Inr B \<and>
     list_command localeCompare bold False M = Inr (TreeReport ''licenses'' trees True) \<and>
     list_all2
       (\<lambda>(k, bucket) t. \<exists>kids. t = Node k kids \<and>
          list_all2
            (\<lambda>(pk, info) p. \<exists>leaves. p = Node pk leaves \<and>
               pk = toString (pkg_name info) @ ''@'' @ pkg_version info \<and>
               leaves =
                 (if truthy (url info) then [Leaf (bold ''URL:'' @ '' '' @ the (url info))] else []) @
                 (if truthy (vendorUrl info)
                  then [Leaf (bold ''VendorUrl:'' @ '' '' @ the (vendorUrl info))] else []) @
                 (if truthy (vendorName info)
                  then [Leaf (bold ''VendorName:'' @ '' '' @ the (vendorName info))] else []) \<and>
               length leaves \<le> 3)
            bucket kids)
       B trees"
proof -
  let ?B = "foldl put [] (getManifests localeCompare M)"
  let ?Q = "\<lambda>(pk, info) p. \<exists>leaves. p = Node pk leaves \<and>
               pk = toString (pkg_name info) @ ''@'' @ pkg_version info \<and>
               leaves =
                 (if truthy (url info) then [Leaf (bold ''URL:'' @ '' '' @ the (url info))] else []) @
                 (if truthy (vendorUrl info)
                  then [Leaf (bold ''VendorUrl:'' @ '' '' @ the (vendorUrl info))] else []) @
                 (if truthy (vendorName info)
                  then [Leaf (bold ''VendorName:'' @ '' '' @ the (vendorName info))] else []) \<and>
               length leaves \<le> 3"
  let ?P = "\<lambda>(k, bucket) t. \<exists>kids. t = Node k kids \<and> list_all2 ?Q bucket kids"
  let ?f = "\<lambda>(licenseKey, byLicense).
      Node licenseKey (map (\<lambda>(key, info). package_tree bold info) byLicense)"
  have 1: "group_by_license (getManifests localeCompare M) = Inr ?B" by (rule group_foldl)
  then have 2: "list_command localeCompare bold False M =
      Inr (TreeReport ''licenses'' (license_trees bold ?B) True)"
    by (simp add: list_command_def)
  have bucket: "?P x (?f x)" if x: "x \<in> set ?B" for x
  proof -
    obtain k b where kb: "x = (k, b)" by (cases x)
    have "?Q e ((\<lambda>(key, info). package_tree bold info) e)" if e: "e \<in> set b" for e
    proof -
      obtain pk info where pi: "e = (pk, info)" by (cases e)
      from x kb e pi obtain m where "package_key m = pk" "info = license_info m"
        using grouped_entry_source by blast
      then have "pk = toString (pkg_name info) @ ''@'' @ pkg_version info"
        by (simp add: package_key_def license_info_def)
      then show ?thesis
        using package_children_leaves[of bold info] length_package_children[of bold info]
        by (simp add: pi package_tree_def)
    qed
    then have "list_all2 ?Q b (map (\<lambda>(key, info). package_tree bold info) b)"
      by (rule list_all2_map_self)
    then show ?thesis by (simp add: kb)
  qed
  have 3: "list_all2 ?P ?B (license_trees bold ?B)"
    unfolding license_trees_def by (rule list_all2_map_self) (rule bucket)
  from 1 2 3 show ?thesis by blast
qed

text \<open>The two packages of the table, as a tree.\<close>

theorem tree_of_grouping_witness:
  "list_command ordinalCompare (\<lambda>s. s) False
     [(package ''b'' ''1.0'')\<lparr>license := Some ''MIT'', homepage := Some []\<rparr>,
      (package ''a'' ''2.0'')
        \<lparr>repository := Some \<lparr>repository_url = Some ''git://a''\<rparr>,
         author := Some \<lparr>author_name = Some ''Ann'', author_url = Some ''http://ann''\<rparr>\<rparr>] =
   Inr (TreeReport ''licenses''
          [Node ''UNKNOWN''
             [Node ''a@2.0''
                [Leaf ''URL: git://a'', Leaf ''VendorUrl: http://ann'', Leaf ''VendorName: Ann'']],
           Node ''MIT'' [Node ''b@1.0'' []]]
          True)"
  using tree_of_grouping [of ordinalCompare
     "[(package ''b'' ''1.0'')\<lparr>license := Some ''MIT'', homepage := Some []\<rparr>,
      (package ''a'' ''2.0'')
        \<lparr>repository := Some \<lparr>repository_url = Some ''git://a''\<rparr>,
         author := Some \<lparr>author_name = Some ''Ann'', author_url = Some ''http://ann''\<rparr>\<rparr>]"
     "\<lambda>s. s"]
  by (simp add: eval_defs list_command_def license_trees_def package_tree_def package_children_def)

text \<open>
  C6 as it is stated fails for a field that is present and empty: a manifest with the
  homepage \<open>""\<close> and no repository gets the url \<open>""\<close>, which is a present field, and its node
  has no URL leaf.
\<close>

theorem tree_empty_url_counterexample:
  "group_by_license (getManifests ordinalCompare [(package ''x'' ''1.0'')\<lparr>homepage := Some []\<rparr>]) =
     Inr [(''UNKNOWN'',
           [(''x@1.0'', \<lparr>pkg_name = Some ''x'', pkg_version = ''1.0'', url = Some [],
                         vendorUrl = None, vendorName = None\<rparr>)])] \<and>
   list_command ordinalCompare (\<lambda>s. s) False [(package ''x'' ''1.0'')\<lparr>homepage := Some []\<rparr>] =
     Inr (TreeReport ''licenses'' [Node ''UNKNOWN'' [Node ''x@1.0'' []]] True)"
  by (simp add: eval_defs list_command_def license_trees_def package_tree_def package_children_def)

section \<open>The disclaimer\<close>

lemma disclaimer_loop_append:
  "disclaimer_loop ms data = data @ map disclaimer_entry (filter not_private ms)"
  by (induction ms arbitrary: data) simp_all

lemma generateDisclaimer_map:
  "generateDisclaimer lc L = map disclaimer_entry (filter not_private (getManifests lc L))"
  by (simp add: generateDisclaimer_def disclaimer_loop_append)

lemma mset_getManifests: "mset (getManifests lc M) = filter_mset not_ignored (mset M)"
  by (simp add: getManifests_def mset_sort_by)

lemma sorted_getManifests:
  assumes "consistent_comparator lc"
  shows "sorted_wrt (name_before lc) (getManifests lc M)"
proof -
  have "sorted_wrt (\<lambda>a b. compare_names lc a b \<le> 0) (sort_by (compare_names lc) M)"
    by (rule sorted_sort_by[OF consistent_compare_names[OF assms]])
  then have "sorted_wrt (name_before lc) (sort_by (compare_names lc) M)"
    by (rule sorted_wrt_mono_rel'[rotated]) (rule compare_names_before)
  then show ?thesis by (simp add: getManifests_def sorted_wrt_filter)
qed

text \<open>
  C1, as the code has it: \<open>generateDisclaimer\<close> starts from \<open>getManifests\<close> as \<open>list\<close> does, so
  the entries are those of the non-private manifests of the sorted and filtered list, in
  that list's order: one entry for each manifest of the provider's list that is neither
  private nor ignored, sorted by name when the collation is a consistent comparator.
\<close>

theorem disclaimer_of_sorted_kept_manifests:
  "generateDisclaimer localeCompare L =
     map disclaimer_entry
       (filter (\<lambda>m. manifestIsPrivate m \<noteq> Some True) (getManifests localeCompare L)) \<and>
   mset (generateDisclaimer localeCompare L) =
     image_mset disclaimer_entry
       (filter_mset (\<lambda>m. manifestIsPrivate m \<noteq> Some True \<and>
                          (\<exists>r. reference m = Some r \<and> \<not> ignore r)) (mset L)) \<and>
   (consistent_comparator localeCompare \<longrightarrow>
      sorted_wrt (name_before localeCompare)
        (filter (\<lambda>m. manifestIsPrivate m \<noteq> Some True) (getManifests localeCompare L)))"
proof (intro conjI impI)
  have np: "not_private = (\<lambda>m. manifestIsPrivate m \<noteq> Some True)"
    by (simp add: fun_eq_iff not_private_def)
  show 1: "generateDisclaimer localeCompare L =
     map disclaimer_entry
       (filter (\<lambda>m. manifestIsPrivate m \<noteq> Some True) (getManifests localeCompare L))"
    by (simp only: generateDisclaimer_map np)
  have "mset (filter (\<lambda>m. manifestIsPrivate m \<noteq> Some True) (getManifests localeCompare L)) =
        filter_mset (\<lambda>m. manifestIsPrivate m \<noteq> Some True \<and>
                          (\<exists>r. reference m = Some r \<and> \<not> ignore r)) (mset L)"
    by (auto simp: mset_getManifests filter_filter_mset not_ignored_iff intro!: filter_mset_cong)
  then show "mset (generateDisclaimer localeCompare L) =
     image_mset disclaimer_entry
       (filter_mset (\<lambda>m. manifestIsPrivate m \<noteq> Some True \<and>
                          (\<exists>r. reference m = Some r \<and> \<not> ignore r)) (mset L))"
    by (simp only: 1 mset_map)
  assume "consistent_comparator localeCompare"
  then have "sorted_wrt (name_before localeCompare) (getManifests localeCompare L)"
    by (rule sorted_getManifests)
  then show "sorted_wrt (name_before localeCompare)
        (filter (\<lambda>m. manifestIsPrivate m \<noteq> Some True) (getManifests localeCompare L))"
    by (simp add: sorted_wrt_filter)
qed

lemmas eval_disclaimer =
  generateDisclaimer_def disclaimer_entry_def not_private_def trim_def isWhiteSpace_def

text \<open>Four manifests out of order: one private, one ignored.\<close>

theorem disclaimer_of_sorted_kept_manifests_witness:
  "consistent_comparator ordinalCompare \<and>
   generateDisclaimer ordinalCompare
     [package ''b'' ''1.0'', (package ''p'' ''1.0'')\<lparr>manifestIsPrivate := Some True\<rparr>,
      (package ''c'' ''1.0'')\<lparr>reference := Some \<lparr>ignore = True\<rparr>\<rparr>, package ''a'' ''2.0''] =
     [\<lparr>entry_name = Some ''a'', entry_version = ''2.0'', entry_licenseText = None,
       entry_license = None, entry_homepage = None\<rparr>,
      \<lparr>entry_name = Some ''b'', entry_version = ''1.0'', entry_licenseText = None,
       entry_license = None, entry_homepage = None\<rparr>]"
  using disclaimer_of_sorted_kept_manifests [of ordinalCompare
     "[package ''b'' ''1.0'', (package ''p'' ''1.0'')\<lparr>manifestIsPrivate := Some True\<rparr>,
      (package ''c'' ''1.0'')\<lparr>reference := Some \<lparr>ignore = True\<rparr>\<rparr>, package ''a'' ''2.0'']"]
    consistent_ordinalCompare
  by (simp add: eval_defs eval_disclaimer)

text \<open>
  C1 as it is stated fails: the list is sorted and the ignored manifests are dropped before
  the entries are made. Of \<open>b\<close>, an ignored \<open>c\<close> and \<open>a\<close>, all non-private, the disclaimer holds
  \<open>a\<close> and \<open>b\<close>, in this order.
\<close>

theorem disclaimer_order_counterexample:
  "generateDisclaimer ordinalCompare
     [package ''b'' ''1.0'', (package ''c'' ''1.0'')\<lparr>reference := Some \<lparr>ignore = True\<rparr>\<rparr>,
      package ''a'' ''2.0''] =
     [\<lparr>entry_name = Some ''a'', entry_version = ''2.0'', entry_licenseText = None,
       entry_license = None, entry_homepage = None\<rparr>,
      \<lparr>entry_name = Some ''b'', entry_version = ''1.0'', entry_licenseText = None,
       entry_license = None, entry_homepage = None\<rparr>] \<and>
   map disclaimer_entry (filter (\<lambda>m. manifestIsPrivate m \<noteq> Some True)
     [package ''b'' ''1.0'', (package ''c'' ''1.0'')\<lparr>reference := Some \<lparr>ignore = True\<rparr>\<rparr>,
      package ''a'' ''2.0'']) =
     [\<lparr>entry_name = Some ''b'', entry_version = ''1.0'', entry_licenseText = None,
       entry_license = None, entry_homepage = None\<rparr>,
      \<lparr>entry_name = Some ''c'', entry_version = ''1.0'', entry_licenseText = None,
       entry_license = None, entry_homepage = None\<rparr>,
      \<lparr>entry_name = Some ''a'', entry_version = ''2.0'', entry_licenseText = None,
       entry_license = None, entry_homepage = None\<rparr>]"
  by (simp add: eval_defs eval_disclaimer)

lemma trim_parts:
  "\<exists>pre suf. t = pre @ trim t @ suf \<and> list_all isWhiteSpace pre \<and> list_all isWhiteSpace suf"
proof -
  let ?d = "dropWhile isWhiteSpace t"
  let ?pre = "takeWhile isWhiteSpace t"
  let ?suf = "rev (takeWhile isWhiteSpace (rev ?d))"
  have "?d = rev (rev ?d)" by simp
  also have "\<dots> = rev (takeWhile isWhiteSpace (rev ?d) @ dropWhile isWhiteSpace (rev ?d))"
    by (simp only: takeWhile_dropWhile_id)
  also have "\<dots> = rev (dropWhile isWhiteSpace (rev ?d)) @ ?suf"
    by (rule rev_append)
  finally have d: "?d = trim t @ ?suf" by (simp only: trim_def)
  have "t = ?pre @ ?d" by simp
  with d have 1: "t = ?pre @ trim t @ ?suf" by simp
  have 2: "list_all isWhiteSpace ?pre"
    by (simp add: list_all_iff) (metis set_takeWhileD)
  have 3: "list_all isWhiteSpace ?suf"
    by (simp add: list_all_iff) (metis set_takeWhileD)
  from 1 2 3 show ?thesis by blast
qed

lemma trim_ends:
  "trim t = [] \<or> (\<not> isWhiteSpace (hd (trim t)) \<and> \<not> isWhiteSpace (last (trim t)))"
proof (cases "trim t = []")
  case True
  then show ?thesis by simp
next
  case False
  let ?d = "dropWhile isWhiteSpace t"
  let ?r = "dropWhile isWhiteSpace (rev ?d)"
  from False have r: "?r \<noteq> []" by (simp add: trim_def)
  then have "\<not> isWhiteSpace (hd ?r)" by (rule hd_dropWhile)
  with r have l: "\<not> isWhiteSpace (last (trim t))" by (simp add: trim_def last_rev)
  have d: "?d \<noteq> []"
  proof
    assume "?d = []"
    then have "?r = []" by (simp only: rev.simps dropWhile.simps)
    with r show False ..
  qed
  then have hd: "\<not> isWhiteSpace (hd ?d)" by (rule hd_dropWhile)
  from r have "last (takeWhile isWhiteSpace (rev ?d) @ ?r) = last ?r" by (rule last_appendR)
  then have "last (rev ?d) = last ?r" by (simp only: takeWhile_dropWhile_id)
  moreover have "last (rev ?d) = hd ?d" by (rule last_rev)
  moreover have "hd (trim t) = last ?r" unfolding trim_def by (rule hd_rev)
  ultimately have "hd (trim t) = hd ?d" by simp
  with hd l show ?thesis by simp
qed

text \<open>
  C9, as the code has it: every entry of the disclaimer comes from a non-private manifest of
  the sorted and filtered list, in order, and carries the manifest's name, version, license
  and homepage unchanged. Its licenseText is absent when the manifest's licenseText is absent
  or the empty string; otherwise it is the manifest's licenseText without the white space at
  its two ends: what is cut off on either side is white space only, and what is left neither
  starts nor ends with white space.
\<close>

theorem disclaimer_entry_fields:
  "list_all2
     (\<lambda>m e. entry_name e = name m \<and> entry_version e = version m \<and>
        entry_license e = license m \<and> entry_homepage e = homepage m \<and>
        (licenseText m = None \<or> licenseText m = Some [] \<longrightarrow> entry_licenseText e = None) \<and>
        (\<forall>t. licenseText m = Some t \<and> t \<noteq> [] \<longrightarrow>
           (\<exists>pre body suf. entry_licenseText e = Some body \<and> t = pre @ body @ suf \<and>
              list_all isWhiteSpace pre \<and> list_all isWhiteSpace suf \<and>
              (body = [] \<or> (\<not> isWhiteSpace (hd body) \<and> \<not> isWhiteSpace (last body))))))
     (filter (\<lambda>m. manifestIsPrivate m \<noteq> Some True) (getManifests localeCompare M))
     (generateDisclaimer localeCompare M)"
proof -
  let ?P = "\<lambda>m e. entry_name e = name m \<and> entry_version e = version m \<and>
        entry_license e = license m \<and> entry_homepage e = homepage m \<and>
        (licenseText m = None \<or> licenseText m = Some [] \<longrightarrow> entry_licenseText e = None) \<and>
        (\<forall>t. licenseText m = Some t \<and> t \<noteq> [] \<longrightarrow>
           (\<exists>pre body suf. entry_licenseText e = Some body \<and> t = pre @ body @ suf \<and>
              list_all isWhiteSpace pre \<and> list_all isWhiteSpace suf \<and>
              (body = [] \<or> (\<not> isWhiteSpace (hd body) \<and> \<not> isWhiteSpace (last body)))))"
  have np: "not_private = (\<lambda>m. manifestIsPrivate m \<noteq> Some True)"
    by (simp add: fun_eq_iff not_private_def)
  have entry: "?P m (disclaimer_entry m)" for m
  proof (intro conjI allI impI)
    fix t assume t: "licenseText m = Some t \<and> t \<noteq> []"
    then have "entry_licenseText (disclaimer_entry m) = Some (trim t)"
      by (simp add: disclaimer_entry_def truthy_def toString_def)
    with trim_parts[of t] trim_ends[of t]
    show "\<exists>pre body suf. entry_licenseText (disclaimer_entry m) = Some body \<and>
              t = pre @ body @ suf \<and>
              list_all isWhiteSpace pre \<and> list_all isWhiteSpace suf \<and>
              (body = [] \<or> (\<not> isWhiteSpace (hd body) \<and> \<not> isWhiteSpace (last body)))"
      by blast
  qed (auto simp: disclaimer_entry_def truthy_def)
  have "list_all2 ?P (filter not_private (getManifests localeCompare M))
          (map disclaimer_entry (filter not_private (getManifests localeCompare M)))"
    by (rule list_all2_map_self) (rule entry)
  then show ?thesis by (simp only: generateDisclaimer_map np)
qed

text \<open>The license text \<open>" MIT License "\<close>, once on a private manifest, once on a public one.\<close>

theorem disclaimer_entry_fields_witness:
  "generateDisclaimer ordinalCompare
     [(package ''x'' ''1.0'')\<lparr>manifestIsPrivate := Some True, licenseText := Some '' MIT License ''\<rparr>,
      (package ''y'' ''1.0'')\<lparr>license := Some ''MIT'', licenseText := Some '' MIT License ''\<rparr>] =
     [\<lparr>entry_name = Some ''y'', entry_version = ''1.0'', entry_licenseText = Some ''MIT License'',
       entry_license = Some ''MIT'', entry_homepage = None\<rparr>]"
  using disclaimer_entry_fields [of ordinalCompare
     "[(package ''x'' ''1.0'')\<lparr>manifestIsPrivate := Some True, licenseText := Some '' MIT License ''\<rparr>,
      (package ''y'' ''1.0'')\<lparr>license := Some ''MIT'', licenseText := Some '' MIT License ''\<rparr>]"]
  by (simp add: eval_defs eval_disclaimer)

text \<open>
  C9 as it is stated fails for a licenseText that is present and empty: trimmed it is the
  empty string, but the entry has no licenseText.
\<close>

theorem disclaimer_empty_licenseText_counterexample:
  "generateDisclaimer ordinalCompare [(package ''x'' ''1.0'')\<lparr>licenseText := Some []\<rparr>] =
     [\<lparr>entry_name = Some ''x'', entry_version = ''1.0'', entry_licenseText = None,
       entry_license = None, entry_homepage = None\<rparr>] \<and>
   map_option trim (licenseText ((package ''x'' ''1.0'')\<lparr>licenseText := Some []\<rparr>)) = Some []"
  by (simp add: eval_defs eval_disclaimer)

section \<open>Running the aggregation again\<close>

lemma sort_by_idem:
  assumes "consistent_comparator cmp"
  shows "sort_by cmp (sort_by cmp xs) = sort_by cmp xs"
  by (rule sort_by_sorted) (rule sorted_sort_by[OF assms])

lemma sort_by_filter_sorted:
  assumes "consistent_comparator cmp"
  shows "sort_by cmp (filter P (sort_by cmp xs)) = filter P (sort_by cmp xs)"
proof (rule sort_by_sorted)
  from sorted_sort_by[OF assms]
  show "sorted_wrt (\<lambda>a b. cmp a b \<le> 0) (filter P (sort_by cmp xs))"
    by (simp add: sorted_wrt_filter)
qed

text \<open>
  C7: the aggregation is a function of the manifest list, and it returns a grouping, never an
  error, so two runs on the same list give the same grouping. \<open>sort\<close> works in place, so a
  second run may also be handed the list the first run left sorted, or the list the first
  run returned: for a collation that is a consistent comparator, \<open>getManifests\<close> returns on
  both what it returned the first time, hence the grouping and the report are the same,
  bucket by bucket, entry by entry, field by field.
\<close>

theorem aggregation_run_again:
  "(\<exists>B. group_by_license (getManifests localeCompare M) = Inr B) \<and>
   (consistent_comparator localeCompare \<longrightarrow>
      getManifests localeCompare (sort_by (compare_names localeCompare) M) =
        getManifests localeCompare M \<and>
      getManifests localeCompare (getManifests localeCompare M) = getManifests localeCompare M \<and>
      group_by_license (getManifests localeCompare (sort_by (compare_names localeCompare) M)) =
        group_by_license (getManifests localeCompare M) \<and>
      group_by_license (getManifests localeCompare (getManifests localeCompare M)) =
        group_by_license (getManifests localeCompare M) \<and>
      list_command localeCompare bold json (sort_by (compare_names localeCompare) M) =
        list_command localeCompare bold json M)"
proof (intro conjI impI)
  show "\<exists>B. group_by_license (getManifests localeCompare M) = Inr B"
    using group_foldl by blast
next
  assume "consistent_comparator localeCompare"
  then have c: "consistent_comparator (compare_names localeCompare)"
    by (rule consistent_compare_names)
  show 2: "getManifests localeCompare (sort_by (compare_names localeCompare) M) =
           getManifests localeCompare M"
    by (simp only: getManifests_def sort_by_idem[OF c])
  show 3: "getManifests localeCompare (getManifests localeCompare M) = getManifests localeCompare M"
    by (simp add: getManifests_def sort_by_filter_sorted[OF c])
  show "group_by_license (getManifests localeCompare (sort_by (compare_names localeCompare) M)) =
        group_by_license (getManifests localeCompare M)"
    by (simp only: 2)
  show "group_by_license (getManifests localeCompare (getManifests localeCompare M)) =
        group_by_license (getManifests localeCompare M)"
    by (simp only: 3)
  show "list_command localeCompare bold json (sort_by (compare_names localeCompare) M) =
        list_command localeCompare bold json M"
    by (simp only: list_command_def 2)
qed

text \<open>The three manifests of the specification's example, and the list after the sort.\<close>

theorem aggregation_run_again_witness:
  "consistent_comparator ordinalCompare \<and>
   sort_by (compare_names ordinalCompare)
     [(package ''b'' ''1.0'')\<lparr>license := Some ''MIT''\<rparr>,
      (package ''a'' ''2.0'')\<lparr>license := Some ''MIT''\<rparr>, package ''c'' ''1.0''] =
     [(package ''a'' ''2.0'')\<lparr>license := Some ''MIT''\<rparr>,
      (package ''b'' ''1.0'')\<lparr>license := Some ''MIT''\<rparr>, package ''c'' ''1.0''] \<and>
   group_by_license (getManifests ordinalCompare
     [(package ''a'' ''2.0'')\<lparr>license := Some ''MIT''\<rparr>,
      (package ''b'' ''1.0'')\<lparr>license := Some ''MIT''\<rparr>, package ''c'' ''1.0'']) =
   group_by_license (getManifests ordinalCompare
     [(package ''b'' ''1.0'')\<lparr>license := Some ''MIT''\<rparr>,
      (package ''a'' ''2.0'')\<lparr>license := Some ''MIT''\<rparr>, package ''c'' ''1.0'']) \<and>
   group_by_license (getManifests ordinalCompare
     [(package ''b'' ''1.0'')\<lparr>license := Some ''MIT''\<rparr>,
      (package ''a'' ''2.0'')\<lparr>license := Some ''MIT''\<rparr>, package ''c'' ''1.0'']) =
     Inr [(''MIT'',
           [(''a@2.0'', \<lparr>pkg_name = Some ''a'', pkg_version = ''2.0'', url = None,
                         vendorUrl = None, vendorName = None\<rparr>),
            (''b@1.0'', \<lparr>pkg_name = Some ''b'', pkg_version = ''1.0'', url = None,
                         vendorUrl = None, vendorName = None\<rparr>)]),
          (''UNKNOWN'',
           [(''c@1.0'', \<lparr>pkg_name = Some ''c'', pkg_version = ''1.0'', url = None,
                         vendorUrl = None, vendorName = None\<rparr>)])]"
  using aggregation_run_again [of ordinalCompare
      "[(package ''b'' ''1.0'')\<lparr>license := Some ''MIT''\<rparr>,
      (package ''a'' ''2.0'')\<lparr>license := Some ''MIT''\<rparr>, package ''c'' ''1.0'']"]
    consistent_ordinalCompare
  by (simp add: eval_defs)

end
